theory Spec2Isabelle
  imports Main "HOL-Library.Monad_Syntax"
begin

section \<open>The win32 launcher \<open>src/windows/rockup.c\<close>\<close>

text \<open>
  The whole program is the function \<open>main\<close>. It asks the operating system for the
  path of the running executable, cuts the last two segments off that path, formats
  the paths of the bundled interpreter and of the bundled script, fills a
  zero-initialised array of pointers with these two paths and the caller's arguments,
  and hands the array to \<open>_spawnvp\<close>, whose result it returns.

  Conventions of the embedding:
  \<^item> a C string is the list of its characters before the terminating NUL;
  \<^item> a slot of a pointer array is \<open>NULL\<close> or points to a C string;
  \<^item> C has no bounds checks: a read or a write outside a buffer is undefined
    behaviour, which every function below reports as \<open>None\<close>;
  \<^item> the \<open>int\<close> variables \<open>i\<close> and \<open>x\<close> are HOL integers: \<open>i\<close> stays between
    \<open>-1\<close> and \<open>SZ\<close>, and \<open>x\<close> never exceeds \<open>_argc\<close>, so no arithmetic on them
    overflows;
  \<^item> what the program does to the outside is a list of events, in order.
\<close>

subsection \<open>Constants\<close>

text \<open>\<^verbatim>\<open>#define SZ 32767\<close>\<close>

definition SZ :: nat where
  "SZ = 32767"

text \<open>The character \<^verbatim>\<open>'\\'\<close>, code \<open>0x5C\<close>.\<close>

definition bslash :: char where
  "bslash = CHR 0x5C"

text \<open>The text after \<^verbatim>\<open>%s\<close> in the format \<^verbatim>\<open>"%s\\ruby\\bin\\ruby.exe"\<close>.\<close>

definition ruby_suffix :: string where
  "ruby_suffix = bslash # ''ruby'' @ bslash # ''bin'' @ bslash # ''ruby.exe''"

text \<open>The text after \<^verbatim>\<open>%s\<close> in the format \<^verbatim>\<open>"%s\\ruby\\bin\\rockup"\<close>.\<close>

definition script_suffix :: string where
  "script_suffix = bslash # ''ruby'' @ bslash # ''bin'' @ bslash # ''rockup''"

subsection \<open>Data\<close>

text \<open>An element of a \<^verbatim>\<open>char**\<close> array.\<close>

datatype cptr = NULL | Ptr string

text \<open>
  What the operating system answers to \<open>_spawnvp\<close> in mode \<open>_P_WAIT\<close>: the child ran
  and ended with an exit status, or no child could be created.
\<close>

datatype spawn_outcome = ChildExit int | SpawnError

text \<open>
  The operating system, as far as the launcher uses it: the file name of the running
  module, and the fate of a child started with a command name and an argument vector.
\<close>

record os =
  module_file_name :: string
  run_child :: "string \<Rightarrow> string list \<Rightarrow> spawn_outcome"

text \<open>The launcher's observable actions.\<close>

datatype event = Printf string | Spawnvp string "string list"

subsection \<open>Library calls\<close>

text \<open>
  \<^verbatim>\<open>GetModuleFileName(NULL, root, SZ)\<close> stores the path in a buffer of \<open>n\<close>
  characters, cutting it to \<open>n - 1\<close> characters and the terminator.
\<close>

definition GetModuleFileName :: "os \<Rightarrow> nat \<Rightarrow> string" where
  "GetModuleFileName w n = take (n - 1) (module_file_name w)"

text \<open>
  \<^verbatim>\<open>snprintf(buf, n, fmt, ...)\<close>, given the fully formatted text: the buffer
  receives at most \<open>n - 1\<close> characters of it, and the call returns the length of
  the whole text.
\<close>

definition snprintf :: "nat \<Rightarrow> string \<Rightarrow> string \<times> int" where
  "snprintf n s = (take (n - 1) s, int (length s))"

text \<open>\<^verbatim>\<open>calloc(n, sizeof(char*))\<close>: \<open>n\<close> slots, all zero.\<close>

definition calloc :: "nat \<Rightarrow> cptr list" where
  "calloc n = replicate n NULL"

text \<open>
  \<open>_spawnvp\<close> declares the result type \<open>intptr_t\<close>: the child's exit status, or
  \<open>-1\<close> when the child cannot be started.
\<close>

definition spawnvp :: "os \<Rightarrow> string \<Rightarrow> string list \<Rightarrow> int" where
  "spawnvp w cmd args = (case run_child w cmd args of ChildExit c \<Rightarrow> c | SpawnError \<Rightarrow> - 1)"

text \<open>
  The \<^verbatim>\<open>return\<close> of \<open>main\<close> converts that \<open>intptr_t\<close> to \<open>int\<close>, which keeps the
  low 32 bits, read as two's complement.
\<close>

definition c_int :: "int \<Rightarrow> int" where
  "c_int v = (v + 2 ^ 31) mod 2 ^ 32 - 2 ^ 31"

text \<open>\<^verbatim>\<open>printf("%d", v)\<close>: decimal digits, with a minus sign below zero.\<close>

fun dec_nat :: "nat \<Rightarrow> string" where
  "dec_nat n =
     (if n < 10 then [''0123456789'' ! n]
      else dec_nat (n div 10) @ [''0123456789'' ! (n mod 10)])"

definition dec_int :: "int \<Rightarrow> string" where
  "dec_int v = (if v < 0 then CHR ''-'' # dec_nat (nat (- v)) else dec_nat (nat v))"

subsection \<open>Memory accesses\<close>

text \<open>
  \<open>root[j]\<close> for a C string \<open>root\<close>: a character of the string, or the terminator at
  index \<open>strlen(root)\<close>; any other index is outside the initialised text.
\<close>

definition char_at :: "string \<Rightarrow> int \<Rightarrow> char option" where
  "char_at s j =
     (if 0 \<le> j \<and> j < int (length s) then Some (s ! nat j)
      else if j = int (length s) then Some (CHR 0x00)
      else None)"

text \<open>\<open>a[j]\<close> read from a pointer array.\<close>

definition slot :: "cptr list \<Rightarrow> int \<Rightarrow> cptr option" where
  "slot a j = (if 0 \<le> j \<and> j < int (length a) then Some (a ! nat j) else None)"

text \<open>\<open>a[j] = p\<close> written to a pointer array.\<close>

definition store :: "cptr list \<Rightarrow> int \<Rightarrow> cptr \<Rightarrow> cptr list option" where
  "store a j p = (if 0 \<le> j \<and> j < int (length a) then Some (a[nat j := p]) else None)"

text \<open>
  \<open>_argv[j]\<close>: the caller's vector holds its strings, then one \<open>NULL\<close>.
\<close>

definition arg_at :: "string list \<Rightarrow> int \<Rightarrow> cptr option" where
  "arg_at av j = slot (map Ptr av @ [NULL]) j"

text \<open>
  A pointer used as a string (by \<^verbatim>\<open>%s\<close>, or as a command name): \<open>NULL\<close> is not one.
\<close>

fun deref :: "cptr \<Rightarrow> string option" where
  "deref NULL = None"
| "deref (Ptr s) = Some s"

subsection \<open>The steps of \<open>main\<close>\<close>

text \<open>
  \<^verbatim>\<open>while(root[--i] != '\\');\<close>: decrement, read, and go on until a backslash is read.
  The result is the value of \<open>i\<close> after the loop.
\<close>

function scan_back :: "string \<Rightarrow> int \<Rightarrow> int option" where
  "scan_back root i =
     (case char_at root (i - 1) of
        None \<Rightarrow> None
      | Some c \<Rightarrow> if c \<noteq> bslash then scan_back root (i - 1) else Some (i - 1))"
  by pat_completeness auto
termination
  by (relation "measure (\<lambda>(root, i). nat i)")
    (auto simp: char_at_def split: if_splits)

text \<open>
  \<^verbatim>\<open>i = strlen(root); while(root[--i] != '\\'); while(root[--i] != '\\'); root[i] = '\0';\<close>
  The result is the string left in \<open>root\<close>.
\<close>

definition truncate_root :: "string \<Rightarrow> string option" where
  "truncate_root root =
     do {
       i \<leftarrow> scan_back root (int (length root));
       i \<leftarrow> scan_back root i;
       Some (take (nat i) root)
     }"

text \<open>
  \<^verbatim>\<open>snprintf(ruby, SZ, "%s\\ruby\\bin\\ruby.exe", root);\<close> The result is the string in
  \<open>ruby\<close>; the returned length is dropped, as in the source.
\<close>

definition ruby_path :: "string \<Rightarrow> string" where
  "ruby_path root = fst (snprintf SZ (root @ ruby_suffix))"

text \<open>\<^verbatim>\<open>snprintf(script, SZ, "%s\\ruby\\bin\\rockup", root);\<close>\<close>

definition script_path :: "string \<Rightarrow> string" where
  "script_path root = fst (snprintf SZ (root @ script_suffix))"

text \<open>
  \<^verbatim>\<open>for(int x = 1; x < _argc; ++x) { argv[i++] = _argv[x]; }\<close> from the current
  \<open>x\<close> and \<open>i\<close>. The result is the array after the loop.
\<close>

function copy_args :: "int \<Rightarrow> string list \<Rightarrow> int \<Rightarrow> cptr list \<Rightarrow> int \<Rightarrow> cptr list option" where
  "copy_args argc av x a i =
     (if x < argc then
        do {
          p \<leftarrow> arg_at av x;
          a' \<leftarrow> store a i p;
          copy_args argc av (x + 1) a' (i + 1)
        }
      else Some a)"
  by pat_completeness auto
termination
  by (relation "measure (\<lambda>(argc, av, x, a, i). nat (argc - x))") auto

text \<open>
  \<^verbatim>\<open>char** argv = calloc(SZ, sizeof(char*)); i = 0; argv[i++] = ruby; argv[i++] = script;\<close>
  and the copying loop. The result is the array \<open>argv\<close> as it is handed on.
\<close>

definition build_argv :: "string \<Rightarrow> int \<Rightarrow> string list \<Rightarrow> cptr list option" where
  "build_argv root argc av =
     do {
       a \<leftarrow> store (calloc SZ) 0 (Ptr (ruby_path root));
       a \<leftarrow> store a 1 (Ptr (script_path root));
       copy_args argc av 1 a 2
     }"

text \<open>
  A reader of a \<open>NULL\<close>-terminated vector (\<open>_spawnvp\<close>, and the loop
  \<^verbatim>\<open>while(argv[i])\<close>) walks from index \<open>i\<close> to the first \<open>NULL\<close>. The result is the
  strings met on the way.
\<close>

function upto_null :: "cptr list \<Rightarrow> int \<Rightarrow> string list option" where
  "upto_null a i =
     (case slot a i of
        None \<Rightarrow> None
      | Some NULL \<Rightarrow> Some []
      | Some (Ptr s) \<Rightarrow> map_option ((#) s) (upto_null a (i + 1)))"
  by pat_completeness auto
termination
  by (relation "measure (\<lambda>(a, i). length a - nat i)")
    (auto simp: slot_def split: if_splits)

text \<open>
  The first block under \<^verbatim>\<open>#ifndef NDEBUG\<close>:
  \<^verbatim>\<open>i = 0; printf("argc = %d\n", _argc); while(i < _argc) { printf("^ %s\n", _argv[i++]); }\<close>
  The loop, from the current \<open>i\<close>:
\<close>

function print_args :: "int \<Rightarrow> string list \<Rightarrow> int \<Rightarrow> event list option" where
  "print_args argc av i =
     (if i < argc then
        do {
          p \<leftarrow> arg_at av i;
          s \<leftarrow> deref p;
          es \<leftarrow> print_args argc av (i + 1);
          Some (Printf (''^ '' @ s @ ''\<newline>'') # es)
        }
      else Some [])"
  by pat_completeness auto
termination
  by (relation "measure (\<lambda>(argc, av, i). nat (argc - i))") auto

definition debug_input :: "int \<Rightarrow> string list \<Rightarrow> event list option" where
  "debug_input argc av =
     do {
       es \<leftarrow> print_args argc av 0;
       Some (Printf (''argc = '' @ dec_int argc @ ''\<newline>'') # es)
     }"

text \<open>
  The second block under \<^verbatim>\<open>#ifndef NDEBUG\<close>:
  \<^verbatim>\<open>i = 0; while(argv[i]) { printf("> %s\n", argv[i++]); }\<close>
\<close>

definition debug_child :: "cptr list \<Rightarrow> event list option" where
  "debug_child a =
     do {
       ss \<leftarrow> upto_null a 0;
       Some (map (\<lambda>s. Printf (''> '' @ s @ ''\<newline>'')) ss)
     }"

subsection \<open>\<open>main\<close>\<close>

text \<open>
  \<open>ndebug\<close> tells whether the build defines \<open>NDEBUG\<close>. The result is the list of
  events and the value \<open>main\<close> returns, which is the exit status of the process.
  \<^verbatim>\<open>return _spawnvp(_P_WAIT, argv[0], argv);\<close> reads \<open>argv[0]\<close> as the command name.
\<close>

definition main :: "bool \<Rightarrow> os \<Rightarrow> int \<Rightarrow> string list \<Rightarrow> (event list \<times> int) option" where
  "main ndebug w argc av =
     do {
       out1 \<leftarrow> (if ndebug then Some [] else debug_input argc av);
       root \<leftarrow> truncate_root (GetModuleFileName w SZ);
       a \<leftarrow> build_argv root argc av;
       out2 \<leftarrow> (if ndebug then Some [] else debug_child a);
       p \<leftarrow> slot a 0;
       cmd \<leftarrow> deref p;
       args \<leftarrow> upto_null a 0;
       Some (out1 @ out2 @ [Spawnvp cmd args], c_int (spawnvp w cmd args))
     }"

subsection \<open>The path with its last two segments removed\<close>

text \<open>
  The specification describes the install root as the path of the executable with its
  last two segments removed. This is that description, written without reference to
  the scan: the path is split at every separator, the last two segments are dropped,
  and the rest is joined again with separators.
\<close>

fun split_path :: "string \<Rightarrow> string list" where
  "split_path [] = [[]]"
| "split_path (c # cs) =
     (if c = bslash then [] # split_path cs
      else (case split_path cs of [] \<Rightarrow> [[c]] | s # ss \<Rightarrow> (c # s) # ss))"

fun join_path :: "string list \<Rightarrow> string" where
  "join_path [] = []"
| "join_path [s] = s"
| "join_path (s # t # ss) = s @ bslash # join_path (t # ss)"

definition without_last_two_segments :: "string \<Rightarrow> string" where
  "without_last_two_segments p = join_path (butlast (butlast (split_path p)))"

subsection \<open>An installation\<close>

text \<open>
  A layout with the executable two levels below the install root, as
  \<^verbatim>\<open>bin\rockup.exe\<close>, for the examples. The second argument is the operating
  system's answer to a spawn.
\<close>

definition installed_at :: "string \<Rightarrow> (string \<Rightarrow> string list \<Rightarrow> spawn_outcome) \<Rightarrow> os" where
  "installed_at root f =
     \<lparr>module_file_name = root @ bslash # ''bin'' @ bslash # ''rockup.exe'', run_child = f\<rparr>"

text \<open>An operating system that starts no child.\<close>

definition spawn_fails :: "string \<Rightarrow> string list \<Rightarrow> spawn_outcome" where
  "spawn_fails cmd args = SpawnError"

section \<open>Properties\<close>

text \<open>
  The recursive equations of the loops are unfolded by hand, one iteration at a time.
\<close>

declare scan_back.simps [simp del]
declare copy_args.simps [simp del]
declare upto_null.simps [simp del]
declare print_args.simps [simp del]

subsection \<open>The backward scan\<close>

lemma scan_back_found:
  "bslash \<notin> set b \<Longrightarrow> int (length a) < i \<Longrightarrow> i \<le> int (length a + 1 + length b) \<Longrightarrow>
   scan_back (a @ bslash # b @ rest) i = Some (int (length a))"
proof (induction "a @ bslash # b @ rest" i rule: scan_back.induct)
  case (1 i)
  let ?r = "a @ bslash # b @ rest"
  show ?case
  proof (cases "i - 1 = int (length a)")
    case True
    then have "char_at ?r (i - 1) = Some bslash"
      by (simp add: char_at_def)
    with True show ?thesis
      by (subst scan_back.simps) simp
  next
    case False
    with "1.prems" have lt: "int (length a) < i - 1" by simp
    define k where "k = nat (i - 1) - Suc (length a)"
    from "1.prems" lt have k: "nat (i - 1) = length a + Suc k" "k < length b"
      by (simp_all add: k_def)
    then have "?r ! nat (i - 1) = b ! k"
      by (simp add: nth_append)
    moreover from k "1.prems"(1) have "b ! k \<noteq> bslash"
      by (metis nth_mem)
    ultimately have c: "char_at ?r (i - 1) = Some (b ! k)" "b ! k \<noteq> bslash"
      using "1.prems" lt by (simp_all add: char_at_def)
    have "scan_back ?r (i - 1) = Some (int (length a))"
      using "1.hyps"[OF c(1) c(2) "1.prems"(1) lt] "1.prems"(3) by simp
    with c show ?thesis
      by (subst scan_back.simps) simp
  qed
qed

lemma scan_back_none:
  "bslash \<notin> set (take (nat i) root) \<Longrightarrow> i \<le> int (length root) \<Longrightarrow> scan_back root i = None"
proof (induction root i rule: scan_back.induct)
  case (1 root i)
  show ?case
  proof (cases "i \<le> 0")
    case True
    then have "char_at root (i - 1) = None" by (simp add: char_at_def)
    then show ?thesis by (subst scan_back.simps) simp
  next
    case False
    with "1.prems" have b: "nat (i - 1) < nat i" "nat (i - 1) < length root" by simp_all
    then have "root ! nat (i - 1) \<in> set (take (nat i) root)"
      by (metis length_take min_less_iff_conj nth_mem nth_take)
    with "1.prems" have ne: "root ! nat (i - 1) \<noteq> bslash" by metis
    from False "1.prems"(2) have c: "char_at root (i - 1) = Some (root ! nat (i - 1))"
      by (simp add: char_at_def)
    have "set (take (nat (i - 1)) root) \<subseteq> set (take (nat i) root)"
      using b by (simp add: set_take_subset_set_take)
    with "1.prems" have "bslash \<notin> set (take (nat (i - 1)) root)" by blast
    then have "scan_back root (i - 1) = None"
      using "1.IH"[OF c ne] "1.prems" by simp
    with c ne show ?thesis by (subst scan_back.simps) simp
  qed
qed


lemma truncate_root_found:
  assumes "bslash \<notin> set b" "bslash \<notin> set c"
  shows "truncate_root (a @ bslash # b @ bslash # c) = Some a"
proof -
  let ?r = "a @ bslash # b @ bslash # c"
  have "scan_back ((a @ bslash # b) @ bslash # c @ []) (int (length ?r))
          = Some (int (length (a @ bslash # b)))"
    by (rule scan_back_found) (use assms in simp_all)
  then have one: "scan_back ?r (int (length ?r)) = Some (int (length a + 1 + length b))"
    by simp
  have two: "scan_back (a @ bslash # b @ (bslash # c)) (int (length a + 1 + length b)) = Some (int (length a))"
    by (rule scan_back_found) (use assms in simp_all)
  show ?thesis
    unfolding truncate_root_def using one two by simp
qed

lemma truncate_root_one:
  assumes "bslash \<notin> set a" "bslash \<notin> set c"
  shows "truncate_root (a @ bslash # c) = None"
proof -
  have "scan_back (a @ bslash # c @ []) (int (length (a @ bslash # c))) = Some (int (length a))"
    by (rule scan_back_found) (use assms in simp_all)
  then have one: "scan_back (a @ bslash # c) (int (length (a @ bslash # c))) = Some (int (length a))"
    by simp
  have two: "scan_back (a @ bslash # c) (int (length a)) = None"
    by (rule scan_back_none) (use assms in simp_all)
  show ?thesis
    unfolding truncate_root_def using one two by simp
qed

lemma truncate_root_zero:
  assumes "bslash \<notin> set root"
  shows "truncate_root root = None"
proof -
  have "scan_back root (int (length root)) = None"
    by (rule scan_back_none) (use assms in simp_all)
  then show ?thesis
    unfolding truncate_root_def by simp
qed

lemma two_separators:
  assumes "2 \<le> count_list root bslash"
  obtains a b c where "root = a @ bslash # b @ bslash # c" "bslash \<notin> set b" "bslash \<notin> set c"
proof -
  from assms have "bslash \<in> set root"
    by (metis count_list_0_iff not_numeral_le_zero)
  then obtain ys c where r: "root = ys @ bslash # c" "bslash \<notin> set c"
    by (meson split_list_last)
  with assms have "1 \<le> count_list ys bslash" by simp
  then have "bslash \<in> set ys"
    by (metis count_list_0_iff not_one_le_zero)
  then obtain a b where y: "ys = a @ bslash # b" "bslash \<notin> set b"
    by (meson split_list_last)
  with r that show thesis by simp
qed

lemma fewer_separators:
  assumes "count_list root bslash < 2"
  shows "truncate_root root = None"
proof (cases "bslash \<in> set root")
  case False
  then show ?thesis by (rule truncate_root_zero)
next
  case True
  then obtain a c where r: "root = a @ bslash # c" "bslash \<notin> set c"
    by (meson split_list_last)
  with assms have "count_list a bslash = 0" by simp
  then have "bslash \<notin> set a" by (simp add: count_list_0_iff)
  with r show ?thesis by (simp add: truncate_root_one)
qed

lemma split_path_not_Nil: "split_path p \<noteq> []"
  by (cases p) (simp_all split: list.splits)

lemma split_path_append:
  "split_path (a @ bslash # b) = split_path a @ split_path b"
  by (induction a) (auto simp: split_path_not_Nil split: list.splits)

lemma split_path_plain: "bslash \<notin> set b \<Longrightarrow> split_path b = [b]"
  by (induction b) auto

lemma join_split_path: "join_path (split_path p) = p"
proof (induction p)
  case Nil
  show ?case by simp
next
  case (Cons c p)
  obtain s ss where r: "split_path p = s # ss"
    using split_path_not_Nil by (cases "split_path p") auto
  with Cons show ?case
    by (cases ss) auto
qed

lemma without_last_two_segments_eq:
  assumes "bslash \<notin> set b" "bslash \<notin> set c"
  shows "without_last_two_segments (a @ bslash # b @ bslash # c) = a"
proof -
  have "split_path (a @ bslash # b @ bslash # c) = split_path a @ [b] @ [c]"
    using assms by (simp add: split_path_append split_path_plain)
  then have "butlast (butlast (split_path (a @ bslash # b @ bslash # c))) = split_path a"
    by (simp add: butlast_append)
  then show ?thesis
    by (simp add: without_last_two_segments_def join_split_path)
qed

subsection \<open>The argument array\<close>

lemma SZ_Suc: "SZ = Suc (Suc (SZ - 2))"
  by (simp add: SZ_def)

lemma SZ_ge2: "2 \<le> SZ"
  by (simp add: SZ_def)

lemma arg_at_nth: "k < length av \<Longrightarrow> arg_at av (int k) = Some (Ptr (av ! k))"
  by (simp add: arg_at_def slot_def nth_append)

lemma copy_args_eq:
  "n \<le> length a \<Longrightarrow>
   copy_args (int (length av)) av (int k) a (int n) =
     (if n + (length av - k) \<le> length a
      then Some (take n a @ map Ptr (drop k av) @ drop (n + (length av - k)) a)
      else None)"
proof (induction "length av - k" arbitrary: k a n)
  case 0
  then show ?case
    by (subst copy_args.simps) simp
next
  case (Suc m)
  then have k: "k < length av" and m: "m = length av - Suc k" by simp_all
  show ?case
  proof (cases "n < length a")
    case False
    with Suc.prems k show ?thesis
      by (subst copy_args.simps) (simp add: arg_at_nth store_def)
  next
    case True
    let ?a = "a[n := Ptr (av ! k)]"
    have st: "store a (int n) (Ptr (av ! k)) = Some ?a"
      using True by (simp add: store_def)
    have "copy_args (int (length av)) av (int k) a (int n) =
          copy_args (int (length av)) av (int (Suc k)) ?a (int (Suc n))"
      using k st by (subst copy_args.simps) (simp add: arg_at_nth add.commute)
    also have "\<dots> = (if Suc n + (length av - Suc k) \<le> length ?a
        then Some (take (Suc n) ?a @ map Ptr (drop (Suc k) av) @ drop (Suc n + (length av - Suc k)) ?a)
        else None)"
      using True by (intro Suc.hyps(1)) (simp_all add: m)
    also have "\<dots> = (if n + (length av - k) \<le> length a
        then Some (take n a @ map Ptr (drop k av) @ drop (n + (length av - k)) a)
        else None)"
    proof -
      have e: "Suc n + (length av - Suc k) = n + (length av - k)"
        using k by simp
      have d: "drop (n + (length av - k)) ?a = drop (n + (length av - k)) a"
        using k by (simp add: drop_update_cancel)
      show ?thesis
        unfolding e d using k True
        by (simp add: take_Suc_conv_app_nth Cons_nth_drop_Suc[symmetric])
    qed
    finally show ?thesis .
  qed
qed

lemma upto_null_prefix:
  "upto_null (pre @ map Ptr ss @ NULL # rest) (int (length pre)) = Some ss"
proof (induction ss arbitrary: pre)
  case Nil
  show ?case
    by (subst upto_null.simps) (simp add: slot_def)
next
  case (Cons s ss)
  have "upto_null ((pre @ [Ptr s]) @ map Ptr ss @ NULL # rest) (int (length (pre @ [Ptr s]))) = Some ss"
    by (rule Cons.IH)
  then have "upto_null (pre @ map Ptr (s # ss) @ NULL # rest) (int (length pre) + 1) = Some ss"
    by (simp add: add.commute)
  then show ?case
    by (subst upto_null.simps) (simp add: slot_def)
qed

lemma upto_null_all_Ptr:
  "0 \<le> i \<Longrightarrow> upto_null (map Ptr ss) i = None"
proof (induction "map Ptr ss" i rule: upto_null.induct)
  case (1 i)
  show ?case
  proof (cases "i < int (length ss)")
    case False
    with 1 show ?thesis
      by (subst upto_null.simps) (simp add: slot_def)
  next
    case True
    with "1.prems" have s: "slot (map Ptr ss) i = Some (Ptr (ss ! nat i))"
      by (simp add: slot_def)
    then have "upto_null (map Ptr ss) (i + 1) = None"
      using "1.hyps" "1.prems" by simp
    with s show ?thesis
      by (subst upto_null.simps) simp
  qed
qed

lemma print_args_eq:
  "print_args (int (length av)) av (int k) =
     Some (map (\<lambda>s. Printf (''^ '' @ s @ ''\<newline>'')) (drop k av))"
proof (induction "length av - k" arbitrary: k)
  case 0
  then show ?case
    by (subst print_args.simps) simp
next
  case (Suc m)
  then have k: "k < length av" and m: "m = length av - Suc k" by simp_all
  have "print_args (int (length av)) av (int (Suc k)) =
     Some (map (\<lambda>s. Printf (''^ '' @ s @ ''\<newline>'')) (drop (Suc k) av))"
    using m by (rule Suc.hyps(1))
  then have "print_args (int (length av)) av (int k + 1) =
     Some (map (\<lambda>s. Printf (''^ '' @ s @ ''\<newline>'')) (drop (Suc k) av))"
    by (simp add: add.commute)
  with k show ?case
    by (subst print_args.simps) (simp add: arg_at_nth Cons_nth_drop_Suc[symmetric])
qed

lemma first_two_stores:
  "Option.bind (store (calloc SZ) 0 p) (\<lambda>a. store a 1 q) = Some (p # q # replicate (SZ - 2) NULL)"
proof -
  obtain m where m: "SZ = Suc (Suc m)"
    using SZ_Suc by blast
  have "calloc SZ = NULL # NULL # replicate (SZ - 2) NULL"
    unfolding m by (simp add: calloc_def)
  then show ?thesis
    by (simp add: store_def)
qed


lemma build_argv_start:
  "build_argv root argc av =
   copy_args argc av 1 (Ptr (ruby_path root) # Ptr (script_path root) # replicate (SZ - 2) NULL) 2"
proof -
  have "build_argv root argc av =
        Option.bind (Option.bind (store (calloc SZ) 0 (Ptr (ruby_path root)))
                       (\<lambda>a. store a 1 (Ptr (script_path root))))
          (\<lambda>a. copy_args argc av 1 a 2)"
    unfolding build_argv_def by (simp only: Option.bind_assoc)
  then show ?thesis
    by (simp only: first_two_stores Option.bind.simps)
qed

lemma build_argv_eq:
  "build_argv root (int (length av)) av =
     (if length (tl av) + 2 \<le> SZ
      then Some (Ptr (ruby_path root) # Ptr (script_path root) # map Ptr (tl av)
                 @ replicate (SZ - (length (tl av) + 2)) NULL)
      else None)"
proof -
  let ?a = "Ptr (ruby_path root) # Ptr (script_path root) # replicate (SZ - 2) NULL"
  have len: "length ?a = SZ"
    using SZ_ge2 by simp
  have "build_argv root (int (length av)) av = copy_args (int (length av)) av (int 1) ?a (int 2)"
    by (simp only: build_argv_start of_nat_1 of_nat_numeral)
  also have "\<dots> = (if 2 + (length av - 1) \<le> length ?a
      then Some (take 2 ?a @ map Ptr (drop 1 av) @ drop (2 + (length av - 1)) ?a)
      else None)"
    by (rule copy_args_eq) simp
  also have "\<dots> = (if length (tl av) + 2 \<le> SZ
      then Some (Ptr (ruby_path root) # Ptr (script_path root) # map Ptr (tl av)
                 @ replicate (SZ - (length (tl av) + 2)) NULL)
      else None)"
  proof -
    have t: "take 2 ?a = [Ptr (ruby_path root), Ptr (script_path root)]"
      by (simp add: numeral_2_eq_2)
    have d: "drop (2 + (length av - 1)) ?a = replicate (SZ - (length (tl av) + 2)) NULL"
      by (simp add: numeral_2_eq_2)
    have l: "2 + (length av - 1) = length (tl av) + 2"
      by simp
    show ?thesis
      unfolding len t d by (simp add: drop_Suc l)
  qed
  finally show ?thesis .
qed

lemma build_argv_fits:
  assumes "length (tl av) + 2 < SZ"
  shows "build_argv root (int (length av)) av =
     Some (map Ptr (ruby_path root # script_path root # tl av)
           @ NULL # replicate (SZ - (length (tl av) + 3)) NULL)"
proof -
  from assms obtain m where "SZ - (length (tl av) + 2) = Suc m" "m = SZ - (length (tl av) + 3)"
    by (metis Suc_diff_Suc add_Suc_right diff_diff_left numeral_3_eq_3 numeral_2_eq_2 plus_1_eq_Suc zero_less_diff Suc_pred)
  then have "replicate (SZ - (length (tl av) + 2)) NULL = NULL # replicate (SZ - (length (tl av) + 3)) NULL"
    by simp
  with assms show ?thesis
    by (simp add: build_argv_eq)
qed

lemma upto_null_start: "upto_null (map Ptr ss @ NULL # rest) 0 = Some ss"
  using upto_null_prefix [of "[]" ss rest] by simp

lemma debug_input_eq:
  "debug_input (int (length av)) av =
     Some (Printf (''argc = '' @ dec_int (int (length av)) @ ''\<newline>'')
           # map (\<lambda>s. Printf (''^ '' @ s @ ''\<newline>'')) av)"
  using print_args_eq [of av 0] by (simp add: debug_input_def)

lemma main_eq:
  assumes "truncate_root (GetModuleFileName w SZ) = Some root" "length (tl av) + 2 < SZ"
  shows "main ndebug w (int (length av)) av =
     Some ((if ndebug then []
            else Printf (''argc = '' @ dec_int (int (length av)) @ ''\<newline>'')
                 # map (\<lambda>s. Printf (''^ '' @ s @ ''\<newline>'')) av
                 @ map (\<lambda>s. Printf (''> '' @ s @ ''\<newline>''))
                     (ruby_path root # script_path root # tl av))
           @ [Spawnvp (ruby_path root) (ruby_path root # script_path root # tl av)],
           c_int (spawnvp w (ruby_path root) (ruby_path root # script_path root # tl av)))"
proof -
  define child where "child = ruby_path root # script_path root # tl av"
  define a where "a = map Ptr child @ NULL # replicate (SZ - (length (tl av) + 3)) NULL"
  have b: "build_argv root (int (length av)) av = Some a"
    unfolding a_def child_def using assms(2) by (rule build_argv_fits)
  have u: "upto_null a 0 = Some child"
    unfolding a_def by (rule upto_null_start)
  have s: "slot a 0 = Some (Ptr (ruby_path root))"
    by (simp add: slot_def a_def child_def)
  have d: "debug_child a = Some (map (\<lambda>s. Printf (''> '' @ s @ ''\<newline>'')) child)"
    unfolding debug_child_def u by simp
  have "main ndebug w (int (length av)) av =
     Some ((if ndebug then []
            else Printf (''argc = '' @ dec_int (int (length av)) @ ''\<newline>'')
                 # map (\<lambda>s. Printf (''^ '' @ s @ ''\<newline>'')) av
                 @ map (\<lambda>s. Printf (''> '' @ s @ ''\<newline>'')) child)
           @ [Spawnvp (ruby_path root) child],
           c_int (spawnvp w (ruby_path root) child))"
    by (cases ndebug) (simp_all add: main_def assms(1) b u s d debug_input_eq)
  then show ?thesis
    unfolding child_def .
qed

lemma truncate_installed:
  assumes "length root + 15 < SZ"
  shows "truncate_root (GetModuleFileName (installed_at root f) SZ) = Some root"
proof -
  have e: "GetModuleFileName (installed_at root f) SZ = root @ bslash # ''bin'' @ bslash # ''rockup.exe''"
    using assms by (simp add: GetModuleFileName_def installed_at_def)
  have t: "truncate_root (root @ bslash # ''bin'' @ bslash # ''rockup.exe'') = Some root"
    by (rule truncate_root_found) (simp_all add: bslash_def)
  show ?thesis
    unfolding e by (rule t)
qed

subsection \<open>The formatted paths, the exit status, and \<open>main\<close>\<close>

lemma ruby_path_take: "ruby_path root = take (SZ - 1) (root @ ruby_suffix)"
  by (simp add: ruby_path_def snprintf_def)

lemma script_path_take: "script_path root = take (SZ - 1) (root @ script_suffix)"
  by (simp add: script_path_def snprintf_def)

lemma c_int_id: "- (2 ^ 31) \<le> v \<Longrightarrow> v < 2 ^ 31 \<Longrightarrow> c_int v = v"
  by (simp add: c_int_def)

lemma main_SomeD:
  assumes "main ndebug w argc av = Some (tr, st)"
  obtains diag cmd args where "tr = diag @ [Spawnvp cmd args]" "st = c_int (spawnvp w cmd args)"
    "ndebug \<longrightarrow> diag = []"
  using assms unfolding main_def
  by (auto split: bind_splits if_splits)

lemma main_run_child_irrelevant:
  "map_option fst (main ndebug (w\<lparr>run_child := f\<rparr>) argc av) = map_option fst (main ndebug w argc av)"
  unfolding main_def
  by (auto simp: GetModuleFileName_def split: bind_splits)

text \<open>
  The shape of every run that returns: diagnostic lines, then the spawn, and the
  converted result of the spawn as the status.
\<close>

lemma print_args_Printf:
  "print_args argc av i = Some es \<Longrightarrow> \<forall>e\<in>set es. \<exists>s. e = Printf s"
proof (induction argc av i arbitrary: es rule: print_args.induct)
  case (1 argc av i)
  show ?case
  proof (cases "i < argc")
    case False
    with "1.prems" show ?thesis
      by (subst (asm) print_args.simps) simp
  next
    case True
    with "1.prems" obtain p s es'
      where p: "arg_at av i = Some p" and s: "deref p = Some s"
        and r: "print_args argc av (i + 1) = Some es'"
        and es: "es = Printf (''^ '' @ s @ ''\<newline>'') # es'"
      by (subst (asm) print_args.simps) (auto split: bind_splits)
    from "1.IH" [OF True p s r] es show ?thesis
      by simp
  qed
qed

lemma debug_input_Printf:
  "debug_input argc av = Some es \<Longrightarrow> \<forall>e\<in>set es. \<exists>s. e = Printf s"
proof -
  assume "debug_input argc av = Some es"
  then obtain es' where r: "print_args argc av 0 = Some es'"
    and es: "es = Printf (''argc = '' @ dec_int argc @ ''\<newline>'') # es'"
    unfolding debug_input_def by (auto split: bind_splits)
  from print_args_Printf [OF r] es show ?thesis
    by simp
qed

lemma debug_child_Printf:
  "debug_child a = Some es \<Longrightarrow> \<forall>e\<in>set es. \<exists>s. e = Printf s"
  unfolding debug_child_def
  by (auto split: bind_splits)

lemma main_Some_shape:
  assumes "main ndebug w argc av = Some (tr, st)"
  shows "\<exists>diag cmd args. tr = diag @ [Spawnvp cmd args]
           \<and> st = c_int (spawnvp w cmd args)
           \<and> (\<forall>e\<in>set diag. \<exists>s. e = Printf s)
           \<and> (ndebug \<longrightarrow> diag = [])"
proof -
  from assms obtain out1 out2 a cmd args
    where o1: "(if ndebug then Some [] else debug_input argc av) = Some out1"
      and o2: "(if ndebug then Some [] else debug_child a) = Some out2"
      and tr: "tr = out1 @ out2 @ [Spawnvp cmd args]"
      and st: "st = c_int (spawnvp w cmd args)"
    unfolding main_def by (auto split: bind_splits)
  from o1 have p1: "\<forall>e\<in>set out1. \<exists>s. e = Printf s" and n1: "ndebug \<longrightarrow> out1 = []"
    by (auto split: if_splits dest: debug_input_Printf)
  from o2 have p2: "\<forall>e\<in>set out2. \<exists>s. e = Printf s" and n2: "ndebug \<longrightarrow> out2 = []"
    by (auto split: if_splits dest: debug_child_Printf)
  from tr have "tr = (out1 @ out2) @ [Spawnvp cmd args]" by simp
  moreover from p1 p2 have "\<forall>e\<in>set (out1 @ out2). \<exists>s. e = Printf s" by auto
  moreover from n1 n2 have "ndebug \<longrightarrow> out1 @ out2 = []" by simp
  ultimately show ?thesis using st by blast
qed

section \<open>The claims\<close>

subsection \<open>The child argument vector\<close>

text \<open>
  Claim C1, as amended. For every input vector \<open>[p0, p1, ..., pn]\<close> whose \<open>n\<close>
  forwarded arguments and the two derived paths leave a free slot in the array, that
  is \<open>n + 2 < SZ\<close>, the array starts with the interpreter path, the script path,
  \<open>p1, ..., pn\<close> in their order and \<open>NULL\<close>, and a reader that stops at the first
  \<open>NULL\<close> sees the interpreter path, the script path and \<open>p1, ..., pn\<close>. With no
  extra argument, \<open>ps = []\<close>, the array starts with the two paths and \<open>NULL\<close>.
\<close>

theorem child_argv_layout:
  assumes "argc = int (length (p0 # ps))" "length ps + 2 < SZ"
  shows "\<exists>a. build_argv root argc (p0 # ps) = Some a
           \<and> take (length ps + 3) a
               = Ptr (ruby_path root) # Ptr (script_path root) # map Ptr ps @ [NULL]
           \<and> upto_null a 0 = Some (ruby_path root # script_path root # ps)"
proof -
  from assms(2) have "build_argv root (int (length (p0 # ps))) (p0 # ps) =
     Some (map Ptr (ruby_path root # script_path root # tl (p0 # ps))
           @ NULL # replicate (SZ - (length (tl (p0 # ps)) + 3)) NULL)"
    by (intro build_argv_fits) simp
  then have "build_argv root argc (p0 # ps) =
     Some (map Ptr (ruby_path root # script_path root # ps)
           @ NULL # replicate (SZ - (length ps + 3)) NULL)"
    using assms(1) by simp
  moreover have "take (length ps + 3) (map Ptr (ruby_path root # script_path root # ps)
           @ NULL # replicate (SZ - (length ps + 3)) NULL)
        = Ptr (ruby_path root) # Ptr (script_path root) # map Ptr ps @ [NULL]"
    by (simp add: numeral_3_eq_3)
  moreover have "upto_null (map Ptr (ruby_path root # script_path root # ps)
           @ NULL # replicate (SZ - (length ps + 3)) NULL) 0
        = Some (ruby_path root # script_path root # ps)"
    by (rule upto_null_start)
  ultimately show ?thesis by blast
qed

text \<open>The amended claim at the vector \<open>[rockup]\<close>: two paths, then \<open>NULL\<close>.\<close>

theorem child_argv_layout_witness:
  "1 = int (length [''rockup'']) \<and> length ([] :: string list) + 2 < SZ \<and>
   (\<exists>a. build_argv ''C:'' 1 [''rockup''] = Some a
      \<and> take 3 a = [Ptr (ruby_path ''C:''), Ptr (script_path ''C:''), NULL]
      \<and> upto_null a 0 = Some [ruby_path ''C:'', script_path ''C:''])"
  using child_argv_layout [of 1 "''rockup''" "[]" "''C:''"] by (simp add: SZ_def)

text \<open>
  The claim as stated, for every input vector, fails at a vector of \<open>32766\<close> strings:
  the two paths and the \<open>32765\<close> forwarded arguments fill all \<open>SZ\<close> slots, no slot
  holds \<open>NULL\<close>, and a reader runs off the end of the array.
\<close>

theorem child_argv_full_counterexample:
  "build_argv ''C:'' 32766 (replicate 32766 ''x'')
     = Some (map Ptr (ruby_path ''C:'' # script_path ''C:'' # replicate 32765 ''x''))
   \<and> NULL \<notin> set (map Ptr (ruby_path ''C:'' # script_path ''C:'' # replicate 32765 ''x''))
   \<and> upto_null (map Ptr (ruby_path ''C:'' # script_path ''C:'' # replicate 32765 ''x'')) 0 = None"
proof -
  have "build_argv ''C:'' 32766 (replicate 32766 ''x'')
     = Some (map Ptr (ruby_path ''C:'' # script_path ''C:'' # replicate 32765 ''x''))"
    using build_argv_eq [of "''C:''" "replicate 32766 ''x''"]
    by (simp add: SZ_def tl_replicate)
  moreover have "NULL \<notin> set (map Ptr (ruby_path ''C:'' # script_path ''C:'' # replicate 32765 ''x''))"
    by auto
  moreover have "upto_null (map Ptr (ruby_path ''C:'' # script_path ''C:'' # replicate 32765 ''x'')) 0 = None"
    by (rule upto_null_all_Ptr) simp
  ultimately show ?thesis by blast
qed



subsection \<open>The install root\<close>

text \<open>
  Claim C2. For every self path with at least two separators, the string that the
  backward truncation leaves in \<open>root\<close> is the path with its last two segments removed.
\<close>

theorem install_root_is_grandparent:
  assumes "2 \<le> count_list root bslash"
  shows "truncate_root root = Some (without_last_two_segments root)"
proof -
  from assms obtain a b c
    where "root = a @ bslash # b @ bslash # c" "bslash \<notin> set b" "bslash \<notin> set c"
    by (rule two_separators)
  then show ?thesis
    by (simp add: truncate_root_found without_last_two_segments_eq)
qed

text \<open>Claim C2 at the path \<^verbatim>\<open>C:\app\bin\rockup.exe\<close>, whose install root is \<^verbatim>\<open>C:\app\<close>.\<close>

theorem install_root_is_grandparent_witness:
  "2 \<le> count_list (''C:'' @ bslash # ''app'' @ bslash # ''bin'' @ bslash # ''rockup.exe'') bslash
   \<and> truncate_root (''C:'' @ bslash # ''app'' @ bslash # ''bin'' @ bslash # ''rockup.exe'')
       = Some (''C:'' @ bslash # ''app'')
   \<and> without_last_two_segments (''C:'' @ bslash # ''app'' @ bslash # ''bin'' @ bslash # ''rockup.exe'')
       = ''C:'' @ bslash # ''app''"
proof -
  let ?p = "''C:'' @ bslash # ''app'' @ bslash # ''bin'' @ bslash # ''rockup.exe''"
  have c: "2 \<le> count_list ?p bslash"
    by (simp add: bslash_def)
  have w: "without_last_two_segments ?p = ''C:'' @ bslash # ''app''"
    by (simp add: without_last_two_segments_def bslash_def)
  from c w install_root_is_grandparent [OF c] show ?thesis
    by simp
qed

text \<open>
  Claim C6. With at least two separators in the path, both scans end, the first at an
  index \<open>i\<close> below the length of the string and the second at an index \<open>j\<close> with
  \<open>0 \<le> j < i\<close>, so every index read lies between \<open>j\<close> and the last character, and
  the terminator is written at \<open>j\<close>. Nothing else guards the scan: with fewer than two
  separators it reads below index \<open>0\<close>.
\<close>

theorem scan_in_bounds_iff_two_separators:
  "(2 \<le> count_list root bslash \<longrightarrow>
      (\<exists>i j. scan_back root (int (length root)) = Some i \<and> scan_back root i = Some j
         \<and> 0 \<le> j \<and> j < i \<and> i < int (length root)
         \<and> truncate_root root = Some (take (nat j) root)))
   \<and> (count_list root bslash < 2 \<longrightarrow> truncate_root root = None)"
proof (intro conjI impI)
  assume "2 \<le> count_list root bslash"
  then obtain a b c
    where r: "root = a @ bslash # b @ bslash # c" and b: "bslash \<notin> set b" and c: "bslash \<notin> set c"
    by (rule two_separators)
  define i where "i = int (length a + 1 + length b)"
  define j where "j = int (length a)"
  have "scan_back ((a @ bslash # b) @ bslash # c @ []) (int (length root))
          = Some (int (length (a @ bslash # b)))"
    by (rule scan_back_found) (use c r in simp_all)
  then have one: "scan_back root (int (length root)) = Some i"
    by (simp add: r i_def)
  have "scan_back (a @ bslash # b @ (bslash # c)) (int (length a + 1 + length b)) = Some (int (length a))"
    by (rule scan_back_found) (use b in simp_all)
  then have two: "scan_back root i = Some j"
    by (simp add: r i_def j_def)
  have t: "truncate_root root = Some (take (nat j) root)"
    by (simp add: truncate_root_def one two)
  have "0 \<le> j" "j < i" "i < int (length root)"
    by (simp_all add: r i_def j_def)
  with one two t show "\<exists>i j. scan_back root (int (length root)) = Some i \<and> scan_back root i = Some j
         \<and> 0 \<le> j \<and> j < i \<and> i < int (length root)
         \<and> truncate_root root = Some (take (nat j) root)"
    by blast
next
  assume "count_list root bslash < 2"
  then show "truncate_root root = None"
    by (rule fewer_separators)
qed

text \<open>
  Claim C6 at \<^verbatim>\<open>C:\bin\rockup.exe\<close>, which has two separators, and at
  \<^verbatim>\<open>C:\rockup.exe\<close>, which has one.
\<close>

theorem scan_in_bounds_iff_two_separators_witness:
  "2 \<le> count_list (''C:'' @ bslash # ''bin'' @ bslash # ''rockup.exe'') bslash
   \<and> (\<exists>i j. scan_back (''C:'' @ bslash # ''bin'' @ bslash # ''rockup.exe'')
                (int (length (''C:'' @ bslash # ''bin'' @ bslash # ''rockup.exe''))) = Some i
         \<and> scan_back (''C:'' @ bslash # ''bin'' @ bslash # ''rockup.exe'') i = Some j
         \<and> 0 \<le> j \<and> j < i \<and> i < int (length (''C:'' @ bslash # ''bin'' @ bslash # ''rockup.exe''))
         \<and> truncate_root (''C:'' @ bslash # ''bin'' @ bslash # ''rockup.exe'')
             = Some (take (nat j) (''C:'' @ bslash # ''bin'' @ bslash # ''rockup.exe'')))
   \<and> count_list (''C:'' @ bslash # ''rockup.exe'') bslash < 2
   \<and> truncate_root (''C:'' @ bslash # ''rockup.exe'') = None"
proof -
  have two: "2 \<le> count_list (''C:'' @ bslash # ''bin'' @ bslash # ''rockup.exe'') bslash"
    by (simp add: bslash_def)
  have one: "count_list (''C:'' @ bslash # ''rockup.exe'') bslash < 2"
    by (simp add: bslash_def)
  from two one
    scan_in_bounds_iff_two_separators [of "''C:'' @ bslash # ''bin'' @ bslash # ''rockup.exe''"]
    scan_in_bounds_iff_two_separators [of "''C:'' @ bslash # ''rockup.exe''"]
  show ?thesis by blast
qed

subsection \<open>The derived paths\<close>

text \<open>
  Claim C3, as amended. For every install root whose concatenation with the
  interpreter suffix is shorter than \<open>SZ\<close>, the interpreter path is that concatenation,
  character by character; and likewise for the script path and the script suffix.
\<close>

theorem derived_paths_are_concatenations:
  "(length root + length ruby_suffix < SZ \<longrightarrow> ruby_path root = root @ ruby_suffix)
   \<and> (length root + length script_suffix < SZ \<longrightarrow> script_path root = root @ script_suffix)"
  by (simp add: ruby_path_take script_path_take)

text \<open>The amended claim at the install root \<^verbatim>\<open>C:\<close>.\<close>

theorem derived_paths_are_concatenations_witness:
  "length ''C:'' + length ruby_suffix < SZ \<and> ruby_path ''C:'' = ''C:'' @ ruby_suffix
   \<and> length ''C:'' + length script_suffix < SZ \<and> script_path ''C:'' = ''C:'' @ script_suffix"
  using derived_paths_are_concatenations [of "''C:''"]
  by (simp add: SZ_def ruby_suffix_def script_suffix_def)

text \<open>
  The claim as stated, for all install roots, fails at a root of \<open>32749\<close> characters:
  with the \<open>18\<close> characters of the suffix the text has \<open>32767\<close> characters, and
  \<open>snprintf\<close> keeps \<open>32766\<close> of them.
\<close>

theorem derived_paths_counterexample:
  "ruby_path (replicate 32749 (CHR ''a'')) \<noteq> replicate 32749 (CHR ''a'') @ ruby_suffix"
proof
  assume "ruby_path (replicate 32749 (CHR ''a'')) = replicate 32749 (CHR ''a'') @ ruby_suffix"
  then have "length (ruby_path (replicate 32749 (CHR ''a'')))
             = length (replicate 32749 (CHR ''a'') @ ruby_suffix)"
    by simp
  then show False
    by (simp add: ruby_path_take SZ_def ruby_suffix_def)
qed

text \<open>
  Claim C7. In a run whose self path has its two separators and whose arguments fit
  the array: when the install root and the interpreter suffix together have \<open>SZ\<close>
  characters or more, the interpreter path is the first \<open>SZ - 1\<close> characters of their
  concatenation, and differs from it; the same holds for the script path; and \<open>main\<close>
  goes on as in any other run: its events are the diagnostic lines of a debug build,
  none in a release build, then the spawn of the interpreter under these paths, and
  it returns what the spawn returns.
\<close>

theorem overlong_path_is_cut_silently:
  assumes "argc = int (length av)" "length (tl av) + 2 < SZ"
    and "truncate_root (GetModuleFileName w SZ) = Some root"
  shows "(SZ \<le> length root + length ruby_suffix \<longrightarrow>
            ruby_path root = take (SZ - 1) (root @ ruby_suffix)
            \<and> length (ruby_path root) = SZ - 1 \<and> ruby_path root \<noteq> root @ ruby_suffix)
     \<and> (SZ \<le> length root + length script_suffix \<longrightarrow>
            script_path root = take (SZ - 1) (root @ script_suffix)
            \<and> length (script_path root) = SZ - 1 \<and> script_path root \<noteq> root @ script_suffix)
     \<and> main ndebug w argc av
         = Some ((if ndebug then []
                  else Printf (''argc = '' @ dec_int argc @ ''\<newline>'')
                       # map (\<lambda>s. Printf (''^ '' @ s @ ''\<newline>'')) av
                       @ map (\<lambda>s. Printf (''> '' @ s @ ''\<newline>''))
                           (ruby_path root # script_path root # tl av))
                 @ [Spawnvp (ruby_path root) (ruby_path root # script_path root # tl av)],
                 c_int (spawnvp w (ruby_path root) (ruby_path root # script_path root # tl av)))"
proof (intro conjI impI)
  assume r: "SZ \<le> length root + length ruby_suffix"
  then show lr: "length (ruby_path root) = SZ - 1"
    by (simp add: ruby_path_take)
  show "ruby_path root \<noteq> root @ ruby_suffix"
  proof
    assume "ruby_path root = root @ ruby_suffix"
    then have "length (ruby_path root) = length (root @ ruby_suffix)" by simp
    with lr r show False by (simp add: SZ_def)
  qed
next
  assume r: "SZ \<le> length root + length script_suffix"
  then show ls: "length (script_path root) = SZ - 1"
    by (simp add: script_path_take)
  show "script_path root \<noteq> root @ script_suffix"
  proof
    assume "script_path root = root @ script_suffix"
    then have "length (script_path root) = length (root @ script_suffix)" by simp
    with ls r show False by (simp add: SZ_def)
  qed
next
  show "main ndebug w argc av
         = Some ((if ndebug then []
                  else Printf (''argc = '' @ dec_int argc @ ''\<newline>'')
                       # map (\<lambda>s. Printf (''^ '' @ s @ ''\<newline>'')) av
                       @ map (\<lambda>s. Printf (''> '' @ s @ ''\<newline>''))
                           (ruby_path root # script_path root # tl av))
                 @ [Spawnvp (ruby_path root) (ruby_path root # script_path root # tl av)],
                 c_int (spawnvp w (ruby_path root) (ruby_path root # script_path root # tl av)))"
    unfolding assms(1) by (rule main_eq [OF assms(3) assms(2)])
qed (rule ruby_path_take script_path_take)+

text \<open>
  Claim C7 at an install root of \<open>32751\<close> characters, the longest whose executable
  path still fits \<open>SZ - 1\<close> characters: both derived paths are cut.
\<close>

theorem overlong_path_is_cut_silently_witness:
  "truncate_root (GetModuleFileName (installed_at (replicate 32751 (CHR ''a'')) (\<lambda>c a. ChildExit 0)) SZ)
     = Some (replicate 32751 (CHR ''a''))
   \<and> SZ \<le> length (replicate 32751 (CHR ''a'')) + length ruby_suffix
   \<and> SZ \<le> length (replicate 32751 (CHR ''a'')) + length script_suffix
   \<and> length (ruby_path (replicate 32751 (CHR ''a''))) = SZ - 1
   \<and> length (script_path (replicate 32751 (CHR ''a''))) = SZ - 1
   \<and> map_option fst
         (main True (installed_at (replicate 32751 (CHR ''a'')) (\<lambda>c a. ChildExit 0)) 1 [''rockup''])
       = Some [Spawnvp (ruby_path (replicate 32751 (CHR ''a'')))
                 [ruby_path (replicate 32751 (CHR ''a'')), script_path (replicate 32751 (CHR ''a''))]]"
proof -
  let ?root = "replicate 32751 (CHR ''a'')"
  let ?w = "installed_at ?root (\<lambda>c a. ChildExit 0)"
  have h1: "1 = int (length [''rockup''])" by simp
  have h2: "length (tl [''rockup'']) + 2 < SZ" by (simp add: SZ_def)
  have h3: "truncate_root (GetModuleFileName ?w SZ) = Some ?root"
    by (rule truncate_installed) (simp add: SZ_def)
  have h4: "SZ \<le> length ?root + length script_suffix"
    by (simp add: SZ_def script_suffix_def)
  have h5: "SZ \<le> length ?root + length ruby_suffix"
    by (simp add: SZ_def ruby_suffix_def)
  have t: "tl [''rockup''] = []" by simp
  from h3 h4 h5 overlong_path_is_cut_silently [OF h1 h2 h3, of True, unfolded t]
  show ?thesis
    by auto
qed

text \<open>
  Claim C8, as amended. Invoked as \<^verbatim>\<open>launcher foo.txt --verbose\<close> with install root
  \<^verbatim>\<open>/opt/app\<close>, the array starts with \<^verbatim>\<open>/opt/app\ruby\bin\ruby.exe\<close>,
  \<^verbatim>\<open>/opt/app\ruby\bin\rockup\<close>, \<^verbatim>\<open>foo.txt\<close>, \<^verbatim>\<open>--verbose\<close> and \<open>NULL\<close>: the
  suffixes are written with backslashes, and the interpreter is \<^verbatim>\<open>ruby.exe\<close>.
\<close>

theorem scenario_child_argv:
  "map_option (take 5) (build_argv ''/opt/app'' 3 [''launcher'', ''foo.txt'', ''--verbose''])
     = Some [Ptr (''/opt/app'' @ CHR 0x5C # ''ruby'' @ CHR 0x5C # ''bin'' @ CHR 0x5C # ''ruby.exe''),
             Ptr (''/opt/app'' @ CHR 0x5C # ''ruby'' @ CHR 0x5C # ''bin'' @ CHR 0x5C # ''rockup''),
             Ptr ''foo.txt'', Ptr ''--verbose'', NULL]"
proof -
  have "length (tl [''launcher'', ''foo.txt'', ''--verbose'']) + 2 < SZ"
    by (simp add: SZ_def)
  from build_argv_fits [OF this, of "''/opt/app''"] show ?thesis
    by (simp add: ruby_path_take script_path_take ruby_suffix_def script_suffix_def bslash_def SZ_def)
qed

text \<open>
  The claim as stated, with \<^verbatim>\<open>/opt/app/ruby/bin/ruby\<close> and
  \<^verbatim>\<open>/opt/app/ruby/bin/rockup\<close>, fails: these are not the first five slots.
\<close>

theorem scenario_child_argv_counterexample:
  "map_option (take 5) (build_argv ''/opt/app'' 3 [''launcher'', ''foo.txt'', ''--verbose''])
     \<noteq> Some [Ptr ''/opt/app/ruby/bin/ruby'', Ptr ''/opt/app/ruby/bin/rockup'',
              Ptr ''foo.txt'', Ptr ''--verbose'', NULL]"
proof -
  have "length (tl [''launcher'', ''foo.txt'', ''--verbose'']) + 2 < SZ"
    by (simp add: SZ_def)
  from build_argv_fits [OF this, of "''/opt/app''"] show ?thesis
    by (simp add: ruby_path_take script_path_take ruby_suffix_def script_suffix_def bslash_def SZ_def)
qed

subsection \<open>The exit status\<close>

text \<open>
  Claim C4. Every run of \<open>main\<close> that returns consists of lines printed and then,
  as its last event, one spawn; and if the child started by that spawn runs to its
  end with an exit status that fits the type \<open>int\<close>, then \<open>main\<close> returns this
  status. In a run whose self path has its two separators and whose arguments fit the
  array, \<open>main\<close> does return: its events are the diagnostic lines of a debug build,
  none in a release build, then the spawn of the interpreter, and its result is the
  status of that child.
\<close>

theorem exit_status_is_child_status:
  "(\<forall>tr st. main ndebug w argc av = Some (tr, st) \<longrightarrow>
      (\<exists>diag cmd args. tr = diag @ [Spawnvp cmd args]
         \<and> (\<forall>e\<in>set diag. \<exists>s. e = Printf s)
         \<and> (\<forall>c. run_child w cmd args = ChildExit c \<and> - (2 ^ 31) \<le> c \<and> c < 2 ^ 31
                \<longrightarrow> st = c)))
   \<and> (argc = int (length av) \<and> length (tl av) + 2 < SZ
        \<and> truncate_root (GetModuleFileName w SZ) = Some root
        \<and> run_child w (ruby_path root) (ruby_path root # script_path root # tl av) = ChildExit c
        \<and> - (2 ^ 31) \<le> c \<and> c < 2 ^ 31 \<longrightarrow>
      main ndebug w argc av
        = Some ((if ndebug then []
                 else Printf (''argc = '' @ dec_int argc @ ''\<newline>'')
                      # map (\<lambda>s. Printf (''^ '' @ s @ ''\<newline>'')) av
                      @ map (\<lambda>s. Printf (''> '' @ s @ ''\<newline>''))
                          (ruby_path root # script_path root # tl av))
                @ [Spawnvp (ruby_path root) (ruby_path root # script_path root # tl av)],
                c))"
proof (intro conjI allI impI)
  fix tr st
  assume "main ndebug w argc av = Some (tr, st)"
  then obtain diag cmd args
    where tr: "tr = diag @ [Spawnvp cmd args]" and st: "st = c_int (spawnvp w cmd args)"
      and p: "\<forall>e\<in>set diag. \<exists>s. e = Printf s"
    using main_Some_shape by blast
  have "\<forall>c. run_child w cmd args = ChildExit c \<and> - (2 ^ 31) \<le> c \<and> c < 2 ^ 31 \<longrightarrow> st = c"
    using st by (simp add: spawnvp_def c_int_id)
  with tr p show "\<exists>diag cmd args. tr = diag @ [Spawnvp cmd args]
         \<and> (\<forall>e\<in>set diag. \<exists>s. e = Printf s)
         \<and> (\<forall>c. run_child w cmd args = ChildExit c \<and> - (2 ^ 31) \<le> c \<and> c < 2 ^ 31
                \<longrightarrow> st = c)"
    by blast
next
  assume a: "argc = int (length av) \<and> length (tl av) + 2 < SZ
        \<and> truncate_root (GetModuleFileName w SZ) = Some root
        \<and> run_child w (ruby_path root) (ruby_path root # script_path root # tl av) = ChildExit c
        \<and> - (2 ^ 31) \<le> c \<and> c < 2 ^ 31"
  then have t: "truncate_root (GetModuleFileName w SZ) = Some root"
    and n: "length (tl av) + 2 < SZ" and e: "argc = int (length av)"
    by simp_all
  from a have "c_int (spawnvp w (ruby_path root) (ruby_path root # script_path root # tl av)) = c"
    by (simp add: spawnvp_def c_int_id)
  then show "main ndebug w argc av
        = Some ((if ndebug then []
                 else Printf (''argc = '' @ dec_int argc @ ''\<newline>'')
                      # map (\<lambda>s. Printf (''^ '' @ s @ ''\<newline>'')) av
                      @ map (\<lambda>s. Printf (''> '' @ s @ ''\<newline>''))
                          (ruby_path root # script_path root # tl av))
                @ [Spawnvp (ruby_path root) (ruby_path root # script_path root # tl av)],
                c)"
    unfolding e main_eq [OF t n] by simp
qed

text \<open>
  Claim C4 for a child that ends with status \<open>7\<close>, in a release build and in a debug
  build.
\<close>

theorem exit_status_is_child_status_witness:
  "main True (installed_at ''C:'' (\<lambda>cmd args. ChildExit 7)) 1 [''rockup'']
     = Some ([Spawnvp (ruby_path ''C:'') [ruby_path ''C:'', script_path ''C:'']], 7)
   \<and> main False (installed_at ''C:'' (\<lambda>cmd args. ChildExit 7)) 1 [''rockup'']
     = Some ([Printf ''argc = 1\<newline>'', Printf ''^ rockup\<newline>'',
              Printf (''> '' @ ruby_path ''C:'' @ ''\<newline>''),
              Printf (''> '' @ script_path ''C:'' @ ''\<newline>''),
              Spawnvp (ruby_path ''C:'') [ruby_path ''C:'', script_path ''C:'']], 7)
   \<and> (\<exists>diag cmd args.
         [Printf ''argc = 1\<newline>'', Printf ''^ rockup\<newline>'',
          Printf (''> '' @ ruby_path ''C:'' @ ''\<newline>''),
          Printf (''> '' @ script_path ''C:'' @ ''\<newline>''),
          Spawnvp (ruby_path ''C:'') [ruby_path ''C:'', script_path ''C:'']]
           = diag @ [Spawnvp cmd args]
         \<and> (\<forall>e\<in>set diag. \<exists>s. e = Printf s)
         \<and> (\<forall>c. run_child (installed_at ''C:'' (\<lambda>cmd args. ChildExit 7)) cmd args = ChildExit c
                   \<and> - (2 ^ 31) \<le> c \<and> c < 2 ^ 31 \<longrightarrow> 7 = c))"
proof -
  let ?w = "installed_at ''C:'' (\<lambda>cmd args. ChildExit 7)"
  have t: "truncate_root (GetModuleFileName ?w SZ) = Some ''C:''"
    by (rule truncate_installed) (simp add: SZ_def)
  have n: "length (tl [''rockup'']) + 2 < SZ"
    by (simp add: SZ_def)
  have e: "1 = int (length [''rockup''])"
    by simp
  have r: "run_child ?w (ruby_path ''C:'') (ruby_path ''C:'' # script_path ''C:'' # tl [''rockup''])
             = ChildExit 7"
    by (simp add: installed_at_def)
  have d: "dec_int 1 = ''1''"
    by (simp add: dec_int_def)
  have rel: "main True ?w 1 [''rockup'']
     = Some ([Spawnvp (ruby_path ''C:'') [ruby_path ''C:'', script_path ''C:'']], 7)"
    using t n e r exit_status_is_child_status [of True ?w 1 "[''rockup'']" "''C:''" 7]
    by simp
  have dbg: "main False ?w 1 [''rockup'']
     = Some ([Printf ''argc = 1\<newline>'', Printf ''^ rockup\<newline>'',
              Printf (''> '' @ ruby_path ''C:'' @ ''\<newline>''),
              Printf (''> '' @ script_path ''C:'' @ ''\<newline>''),
              Spawnvp (ruby_path ''C:'') [ruby_path ''C:'', script_path ''C:'']], 7)"
    using t n e r exit_status_is_child_status [of False ?w 1 "[''rockup'']" "''C:''" 7]
    by (simp add: d)
  from dbg exit_status_is_child_status [of False ?w 1 "[''rockup'']"]
  have "\<exists>diag cmd args.
         [Printf ''argc = 1\<newline>'', Printf ''^ rockup\<newline>'',
          Printf (''> '' @ ruby_path ''C:'' @ ''\<newline>''),
          Printf (''> '' @ script_path ''C:'' @ ''\<newline>''),
          Spawnvp (ruby_path ''C:'') [ruby_path ''C:'', script_path ''C:'']]
           = diag @ [Spawnvp cmd args]
         \<and> (\<forall>e\<in>set diag. \<exists>s. e = Printf s)
         \<and> (\<forall>c. run_child ?w cmd args = ChildExit c
                   \<and> - (2 ^ 31) \<le> c \<and> c < 2 ^ 31 \<longrightarrow> 7 = c)"
    by blast
  with rel dbg show ?thesis by blast
qed

text \<open>
  Claim C5, as amended. Every run of \<open>main\<close> that returns consists of lines printed
  and then, as its last event, one spawn; a release build prints no line; the events
  are the same under any other answer of the operating system to the spawn, so a
  failure adds no message; and if the spawn fails, \<open>main\<close> returns \<open>-1\<close>, the failure
  value of \<open>_spawnvp\<close>. In a run whose self path has its two separators and whose
  arguments fit the array, with a spawn that fails, \<open>main\<close> does return: its events are
  the diagnostic lines of a debug build, none in a release build, then the failed
  spawn, and its result is \<open>-1\<close>.
\<close>

theorem spawn_failure_is_exit_status:
  "(\<forall>tr st. main ndebug w argc av = Some (tr, st) \<longrightarrow>
      (\<exists>diag cmd args. tr = diag @ [Spawnvp cmd args]
         \<and> (\<forall>e\<in>set diag. \<exists>s. e = Printf s)
         \<and> (ndebug \<longrightarrow> diag = [])
         \<and> (\<forall>f. map_option fst (main ndebug (w\<lparr>run_child := f\<rparr>) argc av) = Some tr)
         \<and> (run_child w cmd args = SpawnError \<longrightarrow> st = - 1)))
   \<and> (argc = int (length av) \<and> length (tl av) + 2 < SZ
        \<and> truncate_root (GetModuleFileName w SZ) = Some root
        \<and> run_child w (ruby_path root) (ruby_path root # script_path root # tl av) = SpawnError
        \<longrightarrow>
      main ndebug w argc av
        = Some ((if ndebug then []
                 else Printf (''argc = '' @ dec_int argc @ ''\<newline>'')
                      # map (\<lambda>s. Printf (''^ '' @ s @ ''\<newline>'')) av
                      @ map (\<lambda>s. Printf (''> '' @ s @ ''\<newline>''))
                          (ruby_path root # script_path root # tl av))
                @ [Spawnvp (ruby_path root) (ruby_path root # script_path root # tl av)],
                - 1))"
proof (intro conjI allI impI)
  fix tr st
  assume m: "main ndebug w argc av = Some (tr, st)"
  then obtain diag cmd args
    where tr: "tr = diag @ [Spawnvp cmd args]" and st: "st = c_int (spawnvp w cmd args)"
      and p: "\<forall>e\<in>set diag. \<exists>s. e = Printf s" and d: "ndebug \<longrightarrow> diag = []"
    using main_Some_shape by blast
  have f: "\<forall>f. map_option fst (main ndebug (w\<lparr>run_child := f\<rparr>) argc av) = Some tr"
    using m by (simp add: main_run_child_irrelevant)
  have "run_child w cmd args = SpawnError \<longrightarrow> st = - 1"
    using st by (simp add: spawnvp_def c_int_def)
  with tr p d f show "\<exists>diag cmd args. tr = diag @ [Spawnvp cmd args]
         \<and> (\<forall>e\<in>set diag. \<exists>s. e = Printf s)
         \<and> (ndebug \<longrightarrow> diag = [])
         \<and> (\<forall>f. map_option fst (main ndebug (w\<lparr>run_child := f\<rparr>) argc av) = Some tr)
         \<and> (run_child w cmd args = SpawnError \<longrightarrow> st = - 1)"
    by blast
next
  assume a: "argc = int (length av) \<and> length (tl av) + 2 < SZ
        \<and> truncate_root (GetModuleFileName w SZ) = Some root
        \<and> run_child w (ruby_path root) (ruby_path root # script_path root # tl av) = SpawnError"
  then have t: "truncate_root (GetModuleFileName w SZ) = Some root"
    and n: "length (tl av) + 2 < SZ" and e: "argc = int (length av)"
    by simp_all
  from a have "c_int (spawnvp w (ruby_path root) (ruby_path root # script_path root # tl av)) = - 1"
    by (simp add: spawnvp_def c_int_def)
  then show "main ndebug w argc av
        = Some ((if ndebug then []
                 else Printf (''argc = '' @ dec_int argc @ ''\<newline>'')
                      # map (\<lambda>s. Printf (''^ '' @ s @ ''\<newline>'')) av
                      @ map (\<lambda>s. Printf (''> '' @ s @ ''\<newline>''))
                          (ruby_path root # script_path root # tl av))
                @ [Spawnvp (ruby_path root) (ruby_path root # script_path root # tl av)],
                - 1)"
    unfolding e main_eq [OF t n] by simp
qed

text \<open>
  The amended claim for an operating system that starts no child, in a release build
  and in a debug build.
\<close>

theorem spawn_failure_is_exit_status_witness:
  "main True (installed_at ''C:'' spawn_fails) 1 [''rockup'']
     = Some ([Spawnvp (ruby_path ''C:'') [ruby_path ''C:'', script_path ''C:'']], - 1)
   \<and> (\<forall>f. map_option fst (main True (installed_at ''C:'' spawn_fails\<lparr>run_child := f\<rparr>) 1 [''rockup''])
          = Some [Spawnvp (ruby_path ''C:'') [ruby_path ''C:'', script_path ''C:'']])
   \<and> main False (installed_at ''C:'' spawn_fails) 1 [''rockup'']
     = Some ([Printf ''argc = 1\<newline>'', Printf ''^ rockup\<newline>'',
              Printf (''> '' @ ruby_path ''C:'' @ ''\<newline>''),
              Printf (''> '' @ script_path ''C:'' @ ''\<newline>''),
              Spawnvp (ruby_path ''C:'') [ruby_path ''C:'', script_path ''C:'']], - 1)"
proof -
  let ?w = "installed_at ''C:'' spawn_fails"
  have t: "truncate_root (GetModuleFileName ?w SZ) = Some ''C:''"
    by (rule truncate_installed) (simp add: SZ_def)
  have n: "length (tl [''rockup'']) + 2 < SZ"
    by (simp add: SZ_def)
  have e: "1 = int (length [''rockup''])"
    by simp
  have r: "run_child ?w (ruby_path ''C:'') (ruby_path ''C:'' # script_path ''C:'' # tl [''rockup''])
             = SpawnError"
    by (simp add: installed_at_def spawn_fails_def)
  have d: "dec_int 1 = ''1''"
    by (simp add: dec_int_def)
  have rel: "main True ?w 1 [''rockup'']
     = Some ([Spawnvp (ruby_path ''C:'') [ruby_path ''C:'', script_path ''C:'']], - 1)"
    using t n e r spawn_failure_is_exit_status [of True ?w 1 "[''rockup'']" "''C:''"]
    by simp
  have dbg: "main False ?w 1 [''rockup'']
     = Some ([Printf ''argc = 1\<newline>'', Printf ''^ rockup\<newline>'',
              Printf (''> '' @ ruby_path ''C:'' @ ''\<newline>''),
              Printf (''> '' @ script_path ''C:'' @ ''\<newline>''),
              Spawnvp (ruby_path ''C:'') [ruby_path ''C:'', script_path ''C:'']], - 1)"
    using t n e r spawn_failure_is_exit_status [of False ?w 1 "[''rockup'']" "''C:''"]
    by (simp add: d)
  from rel spawn_failure_is_exit_status [of True ?w 1 "[''rockup'']"]
  have "\<forall>f. map_option fst (main True (?w\<lparr>run_child := f\<rparr>) 1 [''rockup''])
          = Some [Spawnvp (ruby_path ''C:'') [ruby_path ''C:'', script_path ''C:'']]"
    by blast
  with rel dbg show ?thesis by blast
qed

text \<open>
  The claim as stated, that a failed spawn comes with no other observable action,
  fails in a debug build: the spawn fails, and the run has printed four lines before
  it.
\<close>

theorem spawn_failure_debug_counterexample:
  "run_child (installed_at ''C:'' spawn_fails) (ruby_path ''C:'') [ruby_path ''C:'', script_path ''C:'']
     = SpawnError
   \<and> main False (installed_at ''C:'' spawn_fails) 1 [''rockup'']
     = Some ([Printf ''argc = 1\<newline>'', Printf ''^ rockup\<newline>'',
              Printf (''> '' @ ruby_path ''C:'' @ ''\<newline>''),
              Printf (''> '' @ script_path ''C:'' @ ''\<newline>''),
              Spawnvp (ruby_path ''C:'') [ruby_path ''C:'', script_path ''C:'']], - 1)"
proof -
  let ?w = "installed_at ''C:'' spawn_fails"
  have t: "truncate_root (GetModuleFileName ?w SZ) = Some ''C:''"
    by (rule truncate_installed) (simp add: SZ_def)
  have n: "length (tl [''rockup'']) + 2 < SZ"
    by (simp add: SZ_def)
  have r: "run_child ?w (ruby_path ''C:'') [ruby_path ''C:'', script_path ''C:''] = SpawnError"
    by (simp add: installed_at_def spawn_fails_def)
  have d: "dec_int 1 = ''1''"
    by (simp add: dec_int_def)
  have "c_int (spawnvp ?w (ruby_path ''C:'') [ruby_path ''C:'', script_path ''C:'']) = - 1"
    using r by (simp add: spawnvp_def c_int_def)
  with r main_eq [OF t n, of False] show ?thesis
    by (simp add: d)
qed

subsection \<open>Diagnostic output\<close>

text \<open>
  Claim C9. A build with \<open>NDEBUG\<close> never prints: whenever \<open>main\<close> returns, the spawn is
  its only event. In a run whose self path has its two separators and whose arguments
  fit the array, a build without \<open>NDEBUG\<close> prints the line \<^verbatim>\<open>argc = \<close> with the
  count, then every input argument after the marker \<^verbatim>\<open>^ \<close>, then every child argument
  after the marker \<^verbatim>\<open>> \<close>, and then spawns; the build with \<open>NDEBUG\<close> only spawns.
\<close>

theorem diagnostics_only_in_debug_build:
  "(\<forall>tr st. main True w argc av = Some (tr, st) \<longrightarrow> (\<exists>cmd args. tr = [Spawnvp cmd args]))
   \<and> (argc = int (length av) \<and> length (tl av) + 2 < SZ
        \<and> truncate_root (GetModuleFileName w SZ) = Some root \<longrightarrow>
      map_option fst (main False w argc av)
        = Some (Printf (''argc = '' @ dec_int argc @ ''\<newline>'')
                # map (\<lambda>s. Printf (''^ '' @ s @ ''\<newline>'')) av
                @ map (\<lambda>s. Printf (''> '' @ s @ ''\<newline>''))
                    (ruby_path root # script_path root # tl av)
                @ [Spawnvp (ruby_path root) (ruby_path root # script_path root # tl av)])
      \<and> map_option fst (main True w argc av)
        = Some [Spawnvp (ruby_path root) (ruby_path root # script_path root # tl av)])"
proof (intro conjI allI impI)
  fix tr st
  assume "main True w argc av = Some (tr, st)"
  then obtain diag cmd args where "tr = diag @ [Spawnvp cmd args]" "True \<longrightarrow> diag = []"
    by (rule main_SomeD)
  then show "\<exists>cmd args. tr = [Spawnvp cmd args]" by simp
next
  assume a: "argc = int (length av) \<and> length (tl av) + 2 < SZ
        \<and> truncate_root (GetModuleFileName w SZ) = Some root"
  then have t: "truncate_root (GetModuleFileName w SZ) = Some root" and n: "length (tl av) + 2 < SZ"
    and c: "argc = int (length av)"
    by simp_all
  show "map_option fst (main False w argc av)
        = Some (Printf (''argc = '' @ dec_int argc @ ''\<newline>'')
                # map (\<lambda>s. Printf (''^ '' @ s @ ''\<newline>'')) av
                @ map (\<lambda>s. Printf (''> '' @ s @ ''\<newline>''))
                    (ruby_path root # script_path root # tl av)
                @ [Spawnvp (ruby_path root) (ruby_path root # script_path root # tl av)])"
    unfolding c main_eq [OF t n] by simp
  show "map_option fst (main True w argc av)
        = Some [Spawnvp (ruby_path root) (ruby_path root # script_path root # tl av)]"
    unfolding c main_eq [OF t n] by simp
qed

text \<open>Claim C9 at the vector \<open>[rockup, x]\<close>.\<close>

theorem diagnostics_only_in_debug_build_witness:
  "map_option fst (main False (installed_at ''C:'' (\<lambda>c a. ChildExit 0)) 2 [''rockup'', ''x''])
     = Some [Printf ''argc = 2\<newline>'', Printf ''^ rockup\<newline>'', Printf ''^ x\<newline>'',
             Printf (''> '' @ ruby_path ''C:'' @ ''\<newline>''),
             Printf (''> '' @ script_path ''C:'' @ ''\<newline>''),
             Printf ''> x\<newline>'',
             Spawnvp (ruby_path ''C:'') [ruby_path ''C:'', script_path ''C:'', ''x'']]
   \<and> map_option fst (main True (installed_at ''C:'' (\<lambda>c a. ChildExit 0)) 2 [''rockup'', ''x''])
     = Some [Spawnvp (ruby_path ''C:'') [ruby_path ''C:'', script_path ''C:'', ''x'']]"
proof -
  let ?w = "installed_at ''C:'' (\<lambda>c a. ChildExit 0)"
  have t: "truncate_root (GetModuleFileName ?w SZ) = Some ''C:''"
    by (rule truncate_installed) (simp add: SZ_def)
  have n: "length (tl [''rockup'', ''x'']) + 2 < SZ"
    by (simp add: SZ_def)
  have c: "2 = int (length [''rockup'', ''x''])"
    by simp
  have d: "dec_int 2 = ''2''"
    by (simp add: dec_int_def)
  from t n c diagnostics_only_in_debug_build [of ?w 2 "[''rockup'', ''x'']" "''C:''"]
  show ?thesis
    by (simp add: d)
qed

end
